theory Spec2Isabelle
  imports Main
begin

section \<open>Errors and outcomes\<close>

text \<open>
  The exceptions the modelled code can raise.  \<open>MultipleResultsFound\<close> is what
  SQLAlchemy's \<open>one_or_none()\<close> raises when more than one row matches;
  \<open>TypeError\<close> is what Python raises when \<open>None\<close> is called.  \<open>HookError\<close> stands
  for any exception raised by a caller-supplied overflow hook.
\<close>

datatype error = MultipleResultsFound | TypeError | HookError

section \<open>The record models (storage/adapters/sql.py)\<close>

text \<open>
  One record per declarative model class, one field per column.  Field names carry
  a prefix because several models share the column names \<open>id\<close>, \<open>name\<close> and
  \<open>value\<close>.

  \<open>splitio.models.splits.Split\<close> is library code: only the attributes that the
  storage reads or that \<open>local_kill\<close> writes are named, the rest of the definition
  is the opaque \<open>sp_rest\<close>.  A split row's \<open>json_data\<close> column holds
  \<open>json.dumps(split.to_json())\<close> and is read back with
  \<open>splits.from_raw(json.loads(...))\<close>; the model identifies the text with the
  split it encodes.
\<close>

record split =
  sp_name :: string
  sp_traffic_type_name :: string
  sp_killed :: bool
  sp_default_treatment :: string
  sp_change_number :: int
  sp_rest :: string

record split_model =
  sm_id :: int
  sm_name :: string
  sm_traffic_type_name :: string
  sm_json_data :: split

text \<open>
  \<open>SegmentModel.keys\<close> is the eagerly loaded relationship to the segment's
  \<open>SegmentKeyModel\<close> rows; each element of \<open>seg_keys\<close> is the \<open>name\<close> column of one
  member row, in row order.  \<open>change_number\<close> is a nullable integer column.
\<close>

record segment_model =
  seg_id :: int
  seg_name :: string
  seg_change_number :: "int option"
  seg_keys :: "string list"

record my_segment_model =
  ms_id :: int
  ms_traffic_key :: string
  ms_segment_name :: string

text \<open>
  Queued items.  An impression or event is represented by its serialised payload
  (\<open>json.dumps\<close> of the item); \<open>created_at\<close> is a reading of \<open>datetime.datetime.now\<close>,
  taken as an integer number of microseconds.
\<close>

record impression_model =
  im_id :: int
  im_status :: "string option"
  im_created_at :: int
  im_json_data :: string

record event_model =
  em_id :: int
  em_created_at :: int
  em_json_data :: string
  em_size :: int

text \<open>
  \<open>LatencyModel\<close> has the 22 integer columns \<open>bucket_0\<close> .. \<open>bucket_21\<close>;
  \<open>lm_buckets\<close> lists them in that order, so column \<open>bucket_i\<close> is position \<open>i\<close>
  and the \<open>buckets\<close> property is the list itself.
\<close>

record latency_model =
  lm_id :: int
  lm_name :: string
  lm_buckets :: "int list"

record counter_model =
  cm_id :: int
  cm_name :: string
  cm_value :: int

record gauge_model =
  gm_id :: int
  gm_name :: string
  gm_value :: int

text \<open>
  The database: one list of rows per table, in rowid order (a new row is appended).
  \<open>split_metadata\<close> has \<open>name\<close> as its primary key, so it is a map from the name
  to the \<open>number\<close> column.
\<close>

record db =
  split_splits :: "split_model list"
  split_metadata :: "string \<rightharpoonup> int"
  split_segments :: "segment_model list"
  split_my_segments :: "my_segment_model list"
  split_impressions :: "impression_model list"
  split_events :: "event_model list"
  split_latencies :: "latency_model list"
  split_counters :: "counter_model list"
  split_gauges :: "gauge_model list"

section \<open>DbClient (storage/adapters/sql.py)\<close>

text \<open>
  The generic client.  A call is made against one table, given here as its list of
  rows; the \<open>filters\<close> argument is a predicate on rows.  Every method runs in one
  session and commits before it returns, so a sequential caller sees its whole
  effect.
\<close>

definition DbClient_get_all :: "('r \<Rightarrow> bool) \<Rightarrow> 'r list \<Rightarrow> 'r list" where
  "DbClient_get_all filters rows = filter filters rows"

definition DbClient_get_count :: "('r \<Rightarrow> bool) \<Rightarrow> 'r list \<Rightarrow> nat" where
  "DbClient_get_count filters rows = length (filter filters rows)"

definition DbClient_get_one_or_none :: "('r \<Rightarrow> bool) \<Rightarrow> 'r list \<Rightarrow> error + 'r option" where
  "DbClient_get_one_or_none filters rows =
     (case filter filters rows of
        [] \<Rightarrow> Inr None
      | [r] \<Rightarrow> Inr (Some r)
      | _ \<Rightarrow> Inl MultipleResultsFound)"

section \<open>SqlSplitStorage and SqlSegmentStorage: reading (storage/sql.py)\<close>

definition SqlSplitStorage_get_change_number :: "db \<Rightarrow> int" where
  "SqlSplitStorage_get_change_number d =
     (case split_metadata d ''change_number'' of
        Some number \<Rightarrow> number
      | None \<Rightarrow> 0)"

text \<open>
  \<open>segments.Segment(segment_name, keys, change_number)\<close>: the library keeps the keys
  as a set.
\<close>

record segment =
  sg_name :: string
  sg_keys :: "string set"
  sg_change_number :: "int option"

definition SqlSegmentStorage_get :: "db \<Rightarrow> string \<Rightarrow> error + segment option" where
  "SqlSegmentStorage_get d segment_name =
     (case DbClient_get_one_or_none (\<lambda>r. seg_name r = segment_name) (split_segments d) of
        Inl e \<Rightarrow> Inl e
      | Inr None \<Rightarrow> Inr None
      | Inr (Some record) \<Rightarrow>
          Inr (Some \<lparr>sg_name = segment_name, sg_keys = set (seg_keys record),
                     sg_change_number = seg_change_number record\<rparr>))"

text \<open>
  The result is Python's \<open>None\<close> (\<open>Inr None\<close>) when the segment is absent, otherwise
  the segment's \<open>change_number\<close> attribute.
\<close>

definition SqlSegmentStorage_get_change_number :: "db \<Rightarrow> string \<Rightarrow> error + int option" where
  "SqlSegmentStorage_get_change_number d segment_name =
     (case SqlSegmentStorage_get d segment_name of
        Inl e \<Rightarrow> Inl e
      | Inr None \<Rightarrow> Inr None
      | Inr (Some segment) \<Rightarrow> Inr (sg_change_number segment))"

section \<open>SqlSplitStorage: writing (storage/sql.py)\<close>

text \<open>
  A call returns a value, raises, or never returns.  \<open>Blocks\<close> is the last case: the
  caller waits for a lock that nobody will release.
\<close>

datatype ('a, 's) outcome = Returns 'a 's | Raises error 's | Blocks

text \<open>
  The storage object: its database and its \<open>threading.Lock\<close>, which is held
  (\<open>True\<close>) or free.  The lock is not reentrant.
\<close>

record split_storage =
  ss_db :: db
  ss_lock :: bool

text \<open>
  \<open>with self._lock:\<close> waits until the lock is free, holds it while the body runs
  and releases it when the body returns or raises.
\<close>

definition with_lock ::
  "split_storage \<Rightarrow> (split_storage \<Rightarrow> ('a, split_storage) outcome) \<Rightarrow> ('a, split_storage) outcome" where
  "with_lock self body =
     (if ss_lock self then Blocks
      else (case body (self\<lparr>ss_lock := True\<rparr>) of
              Returns v s \<Rightarrow> Returns v (s\<lparr>ss_lock := False\<rparr>)
            | Raises e s \<Rightarrow> Raises e (s\<lparr>ss_lock := False\<rparr>)
            | Blocks \<Rightarrow> Blocks))"

text \<open>
  The engine gives a new row an integer primary key one above the largest in the
  table (1 in an empty table).
\<close>

definition fresh_id :: "int list \<Rightarrow> int" where
  "fresh_id ids = fold max ids 0 + 1"

definition get_split_record :: "db \<Rightarrow> string \<Rightarrow> error + split_model option" where
  "get_split_record d split_name =
     DbClient_get_one_or_none (\<lambda>r. sm_name r = split_name) (split_splits d)"

definition SqlSplitStorage_get :: "db \<Rightarrow> string \<Rightarrow> error + split option" where
  "SqlSplitStorage_get d split_name =
     (case get_split_record d split_name of
        Inl e \<Rightarrow> Inl e
      | Inr None \<Rightarrow> Inr None
      | Inr (Some record) \<Rightarrow> Inr (Some (sm_json_data record)))"

text \<open>
  \<open>put\<close> takes the lock, then inserts a row for a new name or rewrites the row it
  found (merged back by its primary key).
\<close>

definition SqlSplitStorage_put :: "split_storage \<Rightarrow> split \<Rightarrow> (unit, split_storage) outcome" where
  "SqlSplitStorage_put self split =
     with_lock self (\<lambda>self.
       (case get_split_record (ss_db self) (sp_name split) of
          Inl e \<Rightarrow> Raises e self
        | Inr None \<Rightarrow>
            Returns () (self\<lparr>ss_db := (ss_db self)\<lparr>split_splits :=
              split_splits (ss_db self) @
                [\<lparr>sm_id = fresh_id (map sm_id (split_splits (ss_db self))),
                  sm_name = sp_name split,
                  sm_traffic_type_name = sp_traffic_type_name split,
                  sm_json_data = split\<rparr>]\<rparr>\<rparr>)
        | Inr (Some existing_split_record) \<Rightarrow>
            Returns () (self\<lparr>ss_db := (ss_db self)\<lparr>split_splits :=
              map (\<lambda>r. if sm_id r = sm_id existing_split_record
                        then existing_split_record
                               \<lparr>sm_traffic_type_name := sp_traffic_type_name split,
                                sm_json_data := split\<rparr>
                        else r)
                  (split_splits (ss_db self))\<rparr>\<rparr>)))"

text \<open>
  \<open>Split.local_kill\<close> of the splitio library: it sets the default treatment and the
  change number and marks the split killed.
\<close>

definition local_kill :: "split \<Rightarrow> string \<Rightarrow> int \<Rightarrow> split" where
  "local_kill split default_treatment change_number =
     split\<lparr>sp_default_treatment := default_treatment,
           sp_change_number := change_number,
           sp_killed := True\<rparr>"

text \<open>
  \<open>kill_locally\<close> runs under the lock and, on the path that applies the kill, calls
  \<open>self.put(split)\<close> while it still holds it.
\<close>

definition SqlSplitStorage_kill_locally ::
  "split_storage \<Rightarrow> string \<Rightarrow> string \<Rightarrow> int \<Rightarrow> (unit, split_storage) outcome" where
  "SqlSplitStorage_kill_locally self split_name default_treatment change_number =
     with_lock self (\<lambda>self.
       if SqlSplitStorage_get_change_number (ss_db self) > change_number
       then Returns () self
       else (case SqlSplitStorage_get (ss_db self) split_name of
               Inl e \<Rightarrow> Raises e self
             | Inr None \<Rightarrow> Returns () self
             | Inr (Some split) \<Rightarrow>
                 SqlSplitStorage_put self (local_kill split default_treatment change_number)))"

section \<open>Insertion and pop (storage/adapters/sql.py)\<close>

text \<open>
  \<open>merge_and_commit(*records)\<close> called with new records (no primary key yet), as the
  queue stores call it: the rows are inserted in the order given.  Each row gets a
  fresh primary key and, for its \<open>created_at\<close> column, the column default
  \<open>datetime.datetime.now\<close>, read once per row at insertion.  The clock is the
  function \<open>now\<close>: its \<open>n\<close>-th reading is \<open>now n\<close>, and the number of readings taken
  so far is passed along.  \<open>row i t x\<close> builds the row for item \<open>x\<close> with key \<open>i\<close> and
  stamp \<open>t\<close>.
\<close>

fun DbClient_merge_and_commit ::
  "('r \<Rightarrow> int) \<Rightarrow> (int \<Rightarrow> int \<Rightarrow> 'a \<Rightarrow> 'r) \<Rightarrow> (nat \<Rightarrow> int) \<Rightarrow> 'a list \<Rightarrow> 'r list \<Rightarrow> nat
     \<Rightarrow> 'r list \<times> nat" where
  "DbClient_merge_and_commit id_of row now [] rows n = (rows, n)"
| "DbClient_merge_and_commit id_of row now (x # xs) rows n =
     DbClient_merge_and_commit id_of row now xs
       (rows @ [row (fresh_id (map id_of rows)) (now n) x]) (Suc n)"

text \<open>
  \<open>pop(model, limit, *filters, order_by=...)\<close> with the default ascending
  direction: select the matching rows, order them by the \<open>order_by\<close> column when
  one is given (rows with equal keys stay in rowid order, as SQLite returns them),
  cut the result at \<open>limit\<close>, delete each selected row by its primary key and
  return the selection.  A negative \<open>LIMIT\<close> is no limit in SQLite.  The result is
  the selection and the rows left in the table.
\<close>

definition DbClient_pop ::
  "('r \<Rightarrow> int) \<Rightarrow> int option \<Rightarrow> ('r \<Rightarrow> bool) \<Rightarrow> ('r \<Rightarrow> int) option \<Rightarrow> 'r list
     \<Rightarrow> 'r list \<times> 'r list" where
  "DbClient_pop id_of limit filters order_by table =
     (let query = filter filters table;
          query = (case order_by of None \<Rightarrow> query | Some column \<Rightarrow> sort_key column query);
          rows = (case limit of
                    None \<Rightarrow> query
                  | Some l \<Rightarrow> if l < 0 then query else take (nat l) query)
      in (rows, filter (\<lambda>r. id_of r \<notin> set (map id_of rows)) table))"

section \<open>SqlImpressionStorage and SqlEventStorage (storage/sql.py)\<close>

text \<open>
  The overflow hook is a zero-argument callable.  It acts on whatever lies outside
  the store, the world \<open>'w\<close>, and returns or raises.  \<open>set_table_full_hook\<close> takes any
  Python object and keeps it only if it is callable.
\<close>

type_synonym 'w hook = "'w \<Rightarrow> (error + unit) \<times> 'w"

datatype 'w pyobject = Callable "'w hook" | NotCallable

text \<open>
  What a queue store works on: the database, the number of clock readings taken so
  far, and the world of the hook.
\<close>

record 'w env =
  env_db :: db
  env_clock_reads :: nat
  env_world :: 'w

record 'w impression_storage =
  is_queue_size :: int
  is_table_full_hook :: "'w hook option"

definition SqlImpressionStorage_init :: "int \<Rightarrow> 'w impression_storage" where
  "SqlImpressionStorage_init queue_size =
     \<lparr>is_queue_size = queue_size, is_table_full_hook = None\<rparr>"

definition SqlImpressionStorage_set_table_full_hook ::
  "'w impression_storage \<Rightarrow> 'w pyobject \<Rightarrow> 'w impression_storage" where
  "SqlImpressionStorage_set_table_full_hook self hook =
     (case hook of
        Callable h \<Rightarrow> self\<lparr>is_table_full_hook := Some h\<rparr>
      | NotCallable \<Rightarrow> self)"

definition impression_row :: "int \<Rightarrow> int \<Rightarrow> string \<Rightarrow> impression_model" where
  "impression_row i t impression =
     \<lparr>im_id = i, im_status = None, im_created_at = t, im_json_data = impression\<rparr>"

text \<open>
  \<open>put\<close>: insert and commit, then count the rows and call
  \<open>self._table_full_hook()\<close> when the count is above the queue size.  Calling the
  attribute while it is still \<open>None\<close> raises \<open>TypeError\<close>; the rows are committed by
  then.  The result is the value returned or the exception raised, with the state
  the call leaves behind.
\<close>

definition SqlImpressionStorage_put ::
  "'w impression_storage \<Rightarrow> (nat \<Rightarrow> int) \<Rightarrow> string list \<Rightarrow> 'w env \<Rightarrow> (error + bool) \<times> 'w env" where
  "SqlImpressionStorage_put self now impressions s =
     (let (rows, n) = DbClient_merge_and_commit im_id impression_row now impressions
                        (split_impressions (env_db s)) (env_clock_reads s);
          s = s\<lparr>env_db := (env_db s)\<lparr>split_impressions := rows\<rparr>, env_clock_reads := n\<rparr>
      in if int (DbClient_get_count (\<lambda>_. True) (split_impressions (env_db s))) > is_queue_size self
         then (case is_table_full_hook self of
                 None \<Rightarrow> (Inl TypeError, s)
               | Some hook \<Rightarrow>
                   (case hook (env_world s) of
                      (Inl e, w) \<Rightarrow> (Inl e, s\<lparr>env_world := w\<rparr>)
                    | (Inr _, w) \<Rightarrow> (Inr True, s\<lparr>env_world := w\<rparr>)))
         else (Inr True, s))"

definition SqlImpressionStorage_pop_many :: "int \<Rightarrow> db \<Rightarrow> string list \<times> db" where
  "SqlImpressionStorage_pop_many count d =
     (let (records, rest) = DbClient_pop im_id (Some count) (\<lambda>_. True) (Some im_created_at)
                              (split_impressions d)
      in (map im_json_data records, d\<lparr>split_impressions := rest\<rparr>))"

text \<open>
  \<open>EventWrapper(event, size)\<close>: the event, as its serialised payload, and its size
  in bytes.
\<close>

record event_wrapper =
  ew_event :: string
  ew_size :: int

record 'w event_storage =
  es_queue_size :: int
  es_table_full_hook :: "'w hook option"

definition MAX_SIZE_BYTES :: int where
  "MAX_SIZE_BYTES = 5 * 1024 * 1024"

definition SqlEventStorage_init :: "int \<Rightarrow> 'w event_storage" where
  "SqlEventStorage_init queue_size =
     \<lparr>es_queue_size = queue_size, es_table_full_hook = None\<rparr>"

definition SqlEventStorage_set_table_full_hook ::
  "'w event_storage \<Rightarrow> 'w pyobject \<Rightarrow> 'w event_storage" where
  "SqlEventStorage_set_table_full_hook self hook =
     (case hook of
        Callable h \<Rightarrow> self\<lparr>es_table_full_hook := Some h\<rparr>
      | NotCallable \<Rightarrow> self)"

definition event_row :: "int \<Rightarrow> int \<Rightarrow> event_wrapper \<Rightarrow> event_model" where
  "event_row i t event =
     \<lparr>em_id = i, em_created_at = t, em_json_data = ew_event event, em_size = ew_size event\<rparr>"

text \<open>
  The event store's test is \<open>count > queue_size or sum(sizes) >= MAX_SIZE_BYTES\<close>,
  the sum taken over all stored events.
\<close>

definition SqlEventStorage_put ::
  "'w event_storage \<Rightarrow> (nat \<Rightarrow> int) \<Rightarrow> event_wrapper list \<Rightarrow> 'w env \<Rightarrow> (error + bool) \<times> 'w env" where
  "SqlEventStorage_put self now events s =
     (let (rows, n) = DbClient_merge_and_commit em_id event_row now events
                        (split_events (env_db s)) (env_clock_reads s);
          s = s\<lparr>env_db := (env_db s)\<lparr>split_events := rows\<rparr>, env_clock_reads := n\<rparr>
      in if int (DbClient_get_count (\<lambda>_. True) (split_events (env_db s))) > es_queue_size self
            \<or> sum_list (map em_size (DbClient_get_all (\<lambda>_. True) (split_events (env_db s))))
                 \<ge> MAX_SIZE_BYTES
         then (case es_table_full_hook self of
                 None \<Rightarrow> (Inl TypeError, s)
               | Some hook \<Rightarrow>
                   (case hook (env_world s) of
                      (Inl e, w) \<Rightarrow> (Inl e, s\<lparr>env_world := w\<rparr>)
                    | (Inr _, w) \<Rightarrow> (Inr True, s\<lparr>env_world := w\<rparr>)))
         else (Inr True, s))"

definition SqlEventStorage_pop_many :: "int \<Rightarrow> db \<Rightarrow> string list \<times> db" where
  "SqlEventStorage_pop_many count d =
     (let (records, rest) = DbClient_pop em_id (Some count) (\<lambda>_. True) (Some em_created_at)
                              (split_events d)
      in (map em_json_data records, d\<lparr>split_events := rest\<rparr>))"

text \<open>
  A counting wrapper for a hook, as a mock records calls: the world gains a
  counter that goes up by one each time the hook is called; the hook itself
  behaves as before.
\<close>

definition counted :: "'w hook \<Rightarrow> (nat \<times> 'w) hook" where
  "counted hook = (\<lambda>(calls, w). case hook w of (r, w') \<Rightarrow> (r, (Suc calls, w')))"

section \<open>Histories of queue calls\<close>

text \<open>
  A sequential history of \<open>put\<close> and \<open>pop_many\<close> calls on one queue store, and the
  list of what its \<open>pop_many\<close> calls return, in call order.  A \<open>put\<close> that raises
  (no hook, or a failing hook) leaves its state behind and the history goes on.
\<close>

datatype 'a queue_call = Put "'a list" | PopMany nat

fun impression_history ::
  "'w impression_storage \<Rightarrow> (nat \<Rightarrow> int) \<Rightarrow> string queue_call list \<Rightarrow> 'w env \<Rightarrow> string list list" where
  "impression_history self now [] s = []"
| "impression_history self now (Put impressions # calls) s =
     impression_history self now calls (snd (SqlImpressionStorage_put self now impressions s))"
| "impression_history self now (PopMany k # calls) s =
     (let (popped, d) = SqlImpressionStorage_pop_many (int k) (env_db s)
      in popped # impression_history self now calls (s\<lparr>env_db := d\<rparr>))"

fun event_history ::
  "'w event_storage \<Rightarrow> (nat \<Rightarrow> int) \<Rightarrow> event_wrapper queue_call list \<Rightarrow> 'w env \<Rightarrow> string list list" where
  "event_history self now [] s = []"
| "event_history self now (Put events # calls) s =
     event_history self now calls (snd (SqlEventStorage_put self now events s))"
| "event_history self now (PopMany k # calls) s =
     (let (popped, d) = SqlEventStorage_pop_many (int k) (env_db s)
      in popped # event_history self now calls (s\<lparr>env_db := d\<rparr>))"

text \<open>
  The specification's queue, in its own words: \<open>put\<close> appends, \<open>pop_many(k)\<close>
  returns the \<open>k\<close> oldest items still present, oldest first (all of them if there
  are fewer), and removes exactly those.
\<close>

fun fifo_history :: "'a queue_call list \<Rightarrow> 'a list \<Rightarrow> 'a list list" where
  "fifo_history [] queue = []"
| "fifo_history (Put items # calls) queue = fifo_history calls (queue @ items)"
| "fifo_history (PopMany k # calls) queue = take k queue # fifo_history calls (drop k queue)"

fun payloads :: "event_wrapper queue_call \<Rightarrow> string queue_call" where
  "payloads (Put events) = Put (map ew_event events)"
| "payloads (PopMany k) = PopMany k"

text \<open>
  A queue table is stamped in order when its primary keys are distinct, its
  \<open>created_at\<close> stamps do not decrease along the rows, and no stamp is later than
  the clock's next reading: the table a store builds while the clock never steps
  back.
\<close>

definition stamped_in_order ::
  "('r \<Rightarrow> int) \<Rightarrow> ('r \<Rightarrow> int) \<Rightarrow> (nat \<Rightarrow> int) \<Rightarrow> nat \<Rightarrow> 'r list \<Rightarrow> bool" where
  "stamped_in_order id_of created_at now n rows \<longleftrightarrow>
     distinct (map id_of rows) \<and> sorted (map created_at rows)
     \<and> (\<forall>r \<in> set rows. created_at r \<le> now n)"

section \<open>Example states\<close>

text \<open>The database \<open>DbClient()\<close> creates: every table empty.\<close>

definition empty_db :: db where
  "empty_db = \<lparr>split_splits = [], split_metadata = Map.empty, split_segments = [],
      split_my_segments = [], split_impressions = [], split_events = [],
      split_latencies = [], split_counters = [], split_gauges = []\<rparr>"

definition some_split :: split where
  "some_split = \<lparr>sp_name = ''some_split'', sp_traffic_type_name = ''user'',
     sp_killed = False, sp_default_treatment = ''on'', sp_change_number = 1,
     sp_rest = ''''\<rparr>"

text \<open>A split store holding \<open>some_split\<close>, with global change number 10 and its lock free.\<close>

definition some_split_storage :: split_storage where
  "some_split_storage =
     \<lparr>ss_db = empty_db\<lparr>split_splits := [\<lparr>sm_id = 1, sm_name = ''some_split'',
                 sm_traffic_type_name = ''user'', sm_json_data = some_split\<rparr>],
               split_metadata := [''change_number'' \<mapsto> 10]\<rparr>,
      ss_lock = False\<rparr>"

text \<open>A fresh environment: the empty database, no clock reading taken yet.\<close>

definition fresh_env :: "'w \<Rightarrow> 'w env" where
  "fresh_env w = \<lparr>env_db = empty_db, env_clock_reads = 0, env_world = w\<rparr>"

section \<open>SqlTelemetryStorage (storage/sql.py)\<close>

text \<open>
  \<open>increment_or_create(model, column, *filters, **create_kwargs)\<close>: look the row up
  with \<open>one_or_none()\<close>; if there is none, insert \<open>model(**create_kwargs)\<close>, which
  gets a fresh primary key and the column defaults; then run
  \<open>UPDATE ... SET column = column + 1\<close> on the row with the record's primary key
  and commit.  \<open>create i\<close> is the inserted row with key \<open>i\<close>, \<open>column_plus_one\<close> the
  update of one row.  The \<open>except\<close> branch re-reads the row after a failed insert;
  with one caller at a time the insert of a fresh key does not fail, so the branch
  is not taken.
\<close>

definition DbClient_increment_or_create ::
  "('r \<Rightarrow> int) \<Rightarrow> ('r \<Rightarrow> 'r) \<Rightarrow> ('r \<Rightarrow> bool) \<Rightarrow> (int \<Rightarrow> 'r) \<Rightarrow> 'r list \<Rightarrow> error + 'r list" where
  "DbClient_increment_or_create id_of column_plus_one filters create table =
     (case DbClient_get_one_or_none filters table of
        Inl e \<Rightarrow> Inl e
      | Inr found \<Rightarrow>
          (let (record, table) =
                 (case found of
                    None \<Rightarrow> (let record = create (fresh_id (map id_of table))
                             in (record, table @ [record]))
                  | Some record \<Rightarrow> (record, table))
           in Inr (map (\<lambda>r. if id_of r = id_of record then column_plus_one r else r) table)))"


definition SqlTelemetryStorage_inc_counter :: "db \<Rightarrow> string \<Rightarrow> (error + unit) \<times> db" where
  "SqlTelemetryStorage_inc_counter d name =
     (case DbClient_increment_or_create cm_id
             (\<lambda>r. r\<lparr>cm_value := cm_value r + 1\<rparr>)
             (\<lambda>r. cm_name r = name)
             (\<lambda>i. \<lparr>cm_id = i, cm_name = name, cm_value = 0\<rparr>)
             (split_counters d) of
        Inl e \<Rightarrow> (Inl e, d)
      | Inr table \<Rightarrow> (Inr (), d\<lparr>split_counters := table\<rparr>))"

text \<open>
  The drains pop every row of the table (no limit, no order) and build a
  dictionary from the popped rows; a later row with the same name overwrites an
  earlier one, as in a dict comprehension.
\<close>

definition SqlTelemetryStorage_pop_counters :: "db \<Rightarrow> (string \<rightharpoonup> int) \<times> db" where
  "SqlTelemetryStorage_pop_counters d =
     (let (rows, rest) = DbClient_pop cm_id None (\<lambda>_. True) None (split_counters d)
      in (fold (\<lambda>counter m. m(cm_name counter \<mapsto> cm_value counter)) rows Map.empty,
          d\<lparr>split_counters := rest\<rparr>))"


text \<open>
  Sequences of calls on one name: \<open>inc_counter(name)\<close> called \<open>n\<close> times, and
  \<open>inc_latency(name, b)\<close> called for each \<open>b\<close> of a list in turn.  An exception ends
  the sequence.
\<close>

fun inc_counter_times :: "nat \<Rightarrow> db \<Rightarrow> string \<Rightarrow> (error + unit) \<times> db" where
  "inc_counter_times 0 d name = (Inr (), d)"
| "inc_counter_times (Suc n) d name =
     (case SqlTelemetryStorage_inc_counter d name of
        (Inl e, d') \<Rightarrow> (Inl e, d')
      | (Inr _, d') \<Rightarrow> inc_counter_times n d' name)"


section \<open>SqlSegmentStorage: update (storage/sql.py)\<close>

text \<open>
  \<open>update\<close>: fetch the segment record or make a new one, keep the keys that are
  not in \<open>to_remove\<close>, append one key row per element of \<open>to_add\<close> in iteration
  order, set the change number when one is given, and merge the record back: a
  new record is inserted with a fresh primary key, a fetched one replaces the row
  it came from.  \<open>to_add\<close> and \<open>to_remove\<close> are the iterations of the collections
  passed in.
\<close>

definition SqlSegmentStorage_update ::
  "db \<Rightarrow> string \<Rightarrow> string list \<Rightarrow> string list \<Rightarrow> int option \<Rightarrow> (error + unit) \<times> db" where
  "SqlSegmentStorage_update d segment_name to_add to_remove change_number =
     (case DbClient_get_one_or_none (\<lambda>r. seg_name r = segment_name) (split_segments d) of
        Inl e \<Rightarrow> (Inl e, d)
      | Inr found \<Rightarrow>
          (let record = (case found of
                           None \<Rightarrow> \<lparr>seg_id = fresh_id (map seg_id (split_segments d)),
                                     seg_name = segment_name,
                                     seg_change_number = change_number, seg_keys = []\<rparr>
                         | Some record \<Rightarrow> record);
               record = record\<lparr>seg_keys := filter (\<lambda>key. key \<notin> set to_remove) (seg_keys record)\<rparr>;
               record = record\<lparr>seg_keys := seg_keys record @ to_add\<rparr>;
               record = (case change_number of
                           None \<Rightarrow> record
                         | Some c \<Rightarrow> record\<lparr>seg_change_number := Some c\<rparr>)
           in (Inr (),
               d\<lparr>split_segments :=
                    (case found of
                       None \<Rightarrow> split_segments d @ [record]
                     | Some _ \<Rightarrow> map (\<lambda>r. if seg_id r = seg_id record then record else r)
                                   (split_segments d))\<rparr>)))"

text \<open>
  \<open>segment_contains\<close> asks \<open>one_or_none()\<close> for the key row named \<open>key\<close> whose
  segment is named \<open>segment_name\<close>.
\<close>

definition SqlSegmentStorage_segment_contains :: "db \<Rightarrow> string \<Rightarrow> string \<Rightarrow> error + bool" where
  "SqlSegmentStorage_segment_contains d segment_name key =
     (case DbClient_get_one_or_none (\<lambda>k. k = key)
             (concat (map seg_keys
                (filter (\<lambda>r. seg_name r = segment_name) (split_segments d)))) of
        Inl e \<Rightarrow> Inl e
      | Inr None \<Rightarrow> Inr False
      | Inr (Some _) \<Rightarrow> Inr True)"

section \<open>Properties\<close>

lemma get_one_or_none_absent:
  "filter filters rows = [] \<Longrightarrow> DbClient_get_one_or_none filters rows = Inr None"
  by (simp add: DbClient_get_one_or_none_def)

text \<open>
  Claim C10.  In every store state that holds no segment named \<open>segment_name\<close>,
  \<open>SqlSegmentStorage.get_change_number(segment_name)\<close> returns \<open>None\<close>: no default
  number and no error.  The split store differs: its global \<open>get_change_number()\<close>
  is 0 when the metadata row \<open>change_number\<close> is absent.
\<close>

theorem C10_segment_change_number_absent:
  "((\<forall>r \<in> set (split_segments d). seg_name r \<noteq> segment_name)
      \<longrightarrow> SqlSegmentStorage_get_change_number d segment_name = Inr None)
   \<and> (split_metadata d ''change_number'' = None
      \<longrightarrow> SqlSplitStorage_get_change_number d = 0)"
proof (intro conjI impI)
  assume absent: "\<forall>r \<in> set (split_segments d). seg_name r \<noteq> segment_name"
  then have "filter (\<lambda>r. seg_name r = segment_name) (split_segments d) = []"
    by (simp add: filter_empty_conv)
  then have "DbClient_get_one_or_none (\<lambda>r. seg_name r = segment_name) (split_segments d) = Inr None"
    by (rule get_one_or_none_absent)
  then show "SqlSegmentStorage_get_change_number d segment_name = Inr None"
    by (simp add: SqlSegmentStorage_get_change_number_def SqlSegmentStorage_get_def)
next
  assume "split_metadata d ''change_number'' = None"
  then show "SqlSplitStorage_get_change_number d = 0"
    by (simp add: SqlSplitStorage_get_change_number_def)
qed

theorem C10_segment_change_number_absent_witness:
  "SqlSegmentStorage_get_change_number
     \<lparr>split_splits = [], split_metadata = Map.empty,
      split_segments = [\<lparr>seg_id = 1, seg_name = ''some_segment'',
                         seg_change_number = Some 123, seg_keys = [''key1'']\<rparr>],
      split_my_segments = [], split_impressions = [], split_events = [],
      split_latencies = [], split_counters = [], split_gauges = []\<rparr>
     ''nonexistant-segment'' = Inr None
   \<and> SqlSplitStorage_get_change_number
     \<lparr>split_splits = [], split_metadata = Map.empty,
      split_segments = [\<lparr>seg_id = 1, seg_name = ''some_segment'',
                         seg_change_number = Some 123, seg_keys = [''key1'']\<rparr>],
      split_my_segments = [], split_impressions = [], split_events = [],
      split_latencies = [], split_counters = [], split_gauges = []\<rparr> = 0"
  using C10_segment_change_number_absent
    [of "\<lparr>split_splits = [], split_metadata = Map.empty,
      split_segments = [\<lparr>seg_id = 1, seg_name = ''some_segment'',
                         seg_change_number = Some 123, seg_keys = [''key1'']\<rparr>],
      split_my_segments = [], split_impressions = [], split_events = [],
      split_latencies = [], split_counters = [], split_gauges = []\<rparr>"
     "''nonexistant-segment''"]
  by simp

lemma unlock_free: "\<not> ss_lock self \<Longrightarrow> self\<lparr>ss_lock := True\<rparr>\<lparr>ss_lock := False\<rparr> = self"
  by (cases self) simp

lemma kill_locally_superseded:
  assumes "\<not> ss_lock self"
    and "SqlSplitStorage_get_change_number (ss_db self) > change_number"
  shows "SqlSplitStorage_kill_locally self split_name default_treatment change_number
           = Returns () self"
  using assms
  by (simp add: SqlSplitStorage_kill_locally_def with_lock_def unlock_free)

text \<open>
  The guard of \<open>kill_locally\<close>: when the stored global change number is above the
  supplied one, the call returns without an error and the store, lock included,
  is as it was.
\<close>

lemma kill_locally_guard_contrapositive:
  assumes "\<not> ss_lock self"
    and "SqlSplitStorage_kill_locally self split_name default_treatment change_number
           \<noteq> Returns () self"
  shows "SqlSplitStorage_get_change_number (ss_db self) \<le> change_number"
proof (rule ccontr)
  assume "\<not> SqlSplitStorage_get_change_number (ss_db self) \<le> change_number"
  then have "SqlSplitStorage_get_change_number (ss_db self) > change_number"
    by simp
  with assms(1) have "SqlSplitStorage_kill_locally self split_name default_treatment change_number
                        = Returns () self"
    by (rule kill_locally_superseded)
  with assms(2) show False by simp
qed

text \<open>
  \<open>put\<close> called while the lock is held never returns, and that is how
  \<open>kill_locally\<close> calls it: whenever the supplied change number is not superseded
  and the split is stored, the call blocks.  So no call of \<open>kill_locally\<close> that
  returns has changed the store.
\<close>

lemma put_blocks_when_locked:
  "ss_lock self \<Longrightarrow> SqlSplitStorage_put self split = Blocks"
  by (simp add: SqlSplitStorage_put_def with_lock_def)

lemma kill_locally_applying_path_blocks:
  assumes "\<not> ss_lock self"
    and "\<not> SqlSplitStorage_get_change_number (ss_db self) > change_number"
    and "SqlSplitStorage_get (ss_db self) split_name = Inr (Some split)"
  shows "SqlSplitStorage_kill_locally self split_name default_treatment change_number = Blocks"
  using assms
  by (simp add: SqlSplitStorage_kill_locally_def with_lock_def put_blocks_when_locked)

lemma kill_locally_never_changes:
  assumes "SqlSplitStorage_kill_locally self split_name default_treatment change_number
             = Returns v s"
  shows "s = self"
proof -
  have free: "\<not> ss_lock self"
    using assms by (auto simp: SqlSplitStorage_kill_locally_def with_lock_def)
  show ?thesis
  proof (cases "SqlSplitStorage_get_change_number (ss_db self) > change_number")
    case True
    with free assms show ?thesis by (simp add: kill_locally_superseded)
  next
    case False
    show ?thesis
    proof (cases "SqlSplitStorage_get (ss_db self) split_name")
      case (Inl e)
      with free False assms show ?thesis
        by (simp add: SqlSplitStorage_kill_locally_def with_lock_def)
    next
      case (Inr found)
      show ?thesis
      proof (cases found)
        case None
        with Inr free False assms show ?thesis
          by (simp add: SqlSplitStorage_kill_locally_def with_lock_def unlock_free)
      next
        case (Some split)
        with Inr free False
        have "SqlSplitStorage_kill_locally self split_name default_treatment change_number = Blocks"
          by (simp add: kill_locally_applying_path_blocks)
        with assms show ?thesis by simp
      qed
    qed
  qed
qed

text \<open>
  Claim C7 fails on the code.  The claim has \<open>kill_locally\<close> apply the local
  override, rewriting the stored split through \<open>put\<close>, when the supplied change
  number is not superseded, and do nothing when it is.  The second half holds
  (change number 5 against a stored 10).  The first does not: with the stored
  number 10 and the supplied number 10 or 11, \<open>kill_locally\<close> reaches
  \<open>self.put(split)\<close> inside \<open>with self._lock\<close>, \<open>put\<close> waits for the same lock, and
  the call never returns; the stored split is not rewritten.  The same \<open>put\<close>,
  called on its own with the killed split, returns and stores it.
\<close>

theorem C7_kill_locally_deadlocks:
  "SqlSplitStorage_get_change_number (ss_db some_split_storage) = 10
   \<and> SqlSplitStorage_get (ss_db some_split_storage) ''some_split'' = Inr (Some some_split)
   \<and> SqlSplitStorage_kill_locally some_split_storage ''some_split'' ''off'' 10 = Blocks
   \<and> SqlSplitStorage_kill_locally some_split_storage ''some_split'' ''off'' 11 = Blocks
   \<and> SqlSplitStorage_kill_locally some_split_storage ''some_split'' ''off'' 5
       = Returns () some_split_storage
   \<and> (case SqlSplitStorage_put some_split_storage (local_kill some_split ''off'' 11) of
         Returns u s \<Rightarrow> map sm_json_data (split_splits (ss_db s))
                          = [local_kill some_split ''off'' 11]
                        \<and> \<not> ss_lock s
       | Raises e s \<Rightarrow> False
       | Blocks \<Rightarrow> False)"
  by (simp add: some_split_storage_def empty_db_def some_split_def
      SqlSplitStorage_kill_locally_def with_lock_def SqlSplitStorage_get_change_number_def
      SqlSplitStorage_get_def get_split_record_def DbClient_get_one_or_none_def
      SqlSplitStorage_put_def local_kill_def)

text \<open>
  Claim C9.  When no split named \<open>split_name\<close> is stored, \<open>kill_locally\<close> returns
  without an error for every default treatment and change number, and the whole
  store is unchanged: the split rows, the metadata and every other table.
\<close>

theorem C9_kill_locally_absent_split:
  assumes "\<not> ss_lock self"
    and "\<forall>r \<in> set (split_splits (ss_db self)). sm_name r \<noteq> split_name"
  shows "SqlSplitStorage_kill_locally self split_name default_treatment change_number
           = Returns () self"
proof -
  have "filter (\<lambda>r. sm_name r = split_name) (split_splits (ss_db self)) = []"
    using assms(2) by (simp add: filter_empty_conv)
  then have "get_split_record (ss_db self) split_name = Inr None"
    by (simp add: get_split_record_def get_one_or_none_absent)
  then have "SqlSplitStorage_get (ss_db self) split_name = Inr None"
    by (simp add: SqlSplitStorage_get_def)
  with assms(1) show ?thesis
    by (simp add: SqlSplitStorage_kill_locally_def with_lock_def unlock_free)
qed

theorem C9_kill_locally_absent_split_witness:
  "SqlSplitStorage_kill_locally some_split_storage ''other_split'' ''off'' 50
     = Returns () some_split_storage"
  using C9_kill_locally_absent_split[of some_split_storage "''other_split''" "''off''" 50]
  by (simp add: some_split_storage_def empty_db_def)

subsection \<open>Queue stores\<close>

lemma fold_max_ge: "(a::int) \<le> fold max ids a"
  by (induction ids arbitrary: a) (auto intro: order_trans[OF max.cobounded2])

lemma fold_max_member: "(x::int) \<in> set ids \<Longrightarrow> x \<le> fold max ids a"
proof (induction ids arbitrary: a)
  case Nil
  then show ?case by simp
next
  case (Cons y ys)
  show ?case
  proof (cases "x = y")
    case True
    have "y \<le> max y a" by simp
    also have "\<dots> \<le> fold max ys (max y a)" by (rule fold_max_ge)
    finally show ?thesis using True by simp
  next
    case False
    with Cons show ?thesis by simp
  qed
qed

lemma fresh_id_notin: "fresh_id ids \<notin> set ids"
proof
  assume "fresh_id ids \<in> set ids"
  then have "fresh_id ids \<le> fold max ids 0" by (rule fold_max_member)
  then show False by (simp add: fresh_id_def)
qed

lemma merge_and_commit_in_order:
  assumes mono: "\<forall>i j. i \<le> j \<longrightarrow> now i \<le> now j"
    and ids: "\<And>i t x. id_of (row i t x) = i"
    and stamps: "\<And>i t x. created_at (row i t x) = t"
    and inv: "stamped_in_order id_of created_at now n rows"
  shows "stamped_in_order id_of created_at now
           (snd (DbClient_merge_and_commit id_of row now xs rows n))
           (fst (DbClient_merge_and_commit id_of row now xs rows n))"
  using inv
proof (induction xs arbitrary: rows n)
  case Nil
  then show ?case by simp
next
  case (Cons x xs)
  let ?r = "row (fresh_id (map id_of rows)) (now n) x"
  have step: "now n \<le> now (Suc n)" using mono by simp
  have "stamped_in_order id_of created_at now (Suc n) (rows @ [?r])"
    using Cons.prems fresh_id_notin[of "map id_of rows"] step
    by (auto simp: stamped_in_order_def ids stamps sorted_append)
  then show ?case using Cons.IH by simp
qed

lemma merge_and_commit_payload:
  assumes "\<And>i t x. payload (row i t x) = item x"
  shows "map payload (fst (DbClient_merge_and_commit id_of row now xs rows n))
           = map payload rows @ map item xs"
  by (induction xs arbitrary: rows n) (simp_all add: assms)

lemma filter_popped:
  assumes "distinct (map id_of rows)"
  shows "filter (\<lambda>r. id_of r \<notin> set (map id_of (take k rows))) rows = drop k rows"
proof -
  have "distinct (map id_of (take k rows) @ map id_of (drop k rows))"
    using assms by (simp flip: map_append)
  then have disj: "set (map id_of (take k rows)) \<inter> set (map id_of (drop k rows)) = {}"
    by (simp only: distinct_append)
  have "filter (\<lambda>r. id_of r \<notin> set (map id_of (take k rows))) (take k rows) = []"
    by (simp add: filter_empty_conv)
  moreover have "filter (\<lambda>r. id_of r \<notin> set (map id_of (take k rows))) (drop k rows) = drop k rows"
    using disj by (auto simp: filter_id_conv)
  ultimately have "filter (\<lambda>r. id_of r \<notin> set (map id_of (take k rows))) (take k rows @ drop k rows)
      = drop k rows"
    by (simp only: filter_append append_Nil)
  then show ?thesis by simp
qed

lemma pop_in_order:
  assumes "stamped_in_order id_of created_at now n rows"
  shows "DbClient_pop id_of (Some (int k)) (\<lambda>_. True) (Some created_at) rows
           = (take k rows, drop k rows)"
proof -
  have sorted: "sort_key created_at rows = rows"
    using assms by (simp add: stamped_in_order_def sort_key_id_if_sorted)
  have "distinct (map id_of rows)"
    using assms by (simp add: stamped_in_order_def)
  then have "filter (\<lambda>r. id_of r \<notin> set (map id_of (take k rows))) rows = drop k rows"
    by (rule filter_popped)
  with sorted show ?thesis
    by (simp add: DbClient_pop_def Let_def)
qed

lemma drop_in_order:
  assumes "stamped_in_order id_of created_at now n rows"
  shows "stamped_in_order id_of created_at now n (drop k rows)"
  using assms
  by (auto simp: stamped_in_order_def distinct_drop drop_map[symmetric] sorted_wrt_drop
      dest: in_set_dropD)

lemma impression_put_state:
  "split_impressions (env_db (snd (SqlImpressionStorage_put self now xs s)))
     = fst (DbClient_merge_and_commit im_id impression_row now xs
              (split_impressions (env_db s)) (env_clock_reads s))
   \<and> env_clock_reads (snd (SqlImpressionStorage_put self now xs s))
     = snd (DbClient_merge_and_commit im_id impression_row now xs
              (split_impressions (env_db s)) (env_clock_reads s))"
  by (simp add: SqlImpressionStorage_put_def Let_def split: prod.splits option.splits sum.splits)

lemma event_put_state:
  "split_events (env_db (snd (SqlEventStorage_put self now xs s)))
     = fst (DbClient_merge_and_commit em_id event_row now xs
              (split_events (env_db s)) (env_clock_reads s))
   \<and> env_clock_reads (snd (SqlEventStorage_put self now xs s))
     = snd (DbClient_merge_and_commit em_id event_row now xs
              (split_events (env_db s)) (env_clock_reads s))"
  by (simp add: SqlEventStorage_put_def Let_def split: prod.splits option.splits sum.splits)

lemma impression_history_fifo:
  assumes mono: "\<forall>i j. i \<le> j \<longrightarrow> now i \<le> now j"
    and inv: "stamped_in_order im_id im_created_at now (env_clock_reads s)
                (split_impressions (env_db s))"
  shows "impression_history self now calls s
           = fifo_history calls (map im_json_data (split_impressions (env_db s)))"
  using inv
proof (induction calls arbitrary: s)
  case Nil
  then show ?case by simp
next
  case (Cons call calls)
  show ?case
  proof (cases call)
    case (Put xs)
    let ?s = "snd (SqlImpressionStorage_put self now xs s)"
    let ?m = "DbClient_merge_and_commit im_id impression_row now xs
                (split_impressions (env_db s)) (env_clock_reads s)"
    have "stamped_in_order im_id im_created_at now (snd ?m) (fst ?m)"
      by (rule merge_and_commit_in_order[OF mono _ _ Cons.prems])
         (simp_all add: impression_row_def)
    then have "stamped_in_order im_id im_created_at now (env_clock_reads ?s)
                 (split_impressions (env_db ?s))"
      by (simp add: impression_put_state)
    then have "impression_history self now calls ?s
                 = fifo_history calls (map im_json_data (split_impressions (env_db ?s)))"
      by (rule Cons.IH)
    moreover have "map im_json_data (split_impressions (env_db ?s))
                     = map im_json_data (split_impressions (env_db s)) @ xs"
      using merge_and_commit_payload[of im_json_data impression_row "\<lambda>x. x" im_id now xs
              "split_impressions (env_db s)" "env_clock_reads s"]
      by (simp add: impression_put_state impression_row_def)
    ultimately show ?thesis using Put by simp
  next
    case (PopMany k)
    let ?rows = "split_impressions (env_db s)"
    let ?s = "s\<lparr>env_db := (env_db s)\<lparr>split_impressions := drop k ?rows\<rparr>\<rparr>"
    have pop: "SqlImpressionStorage_pop_many (int k) (env_db s)
                 = (map im_json_data (take k ?rows), (env_db s)\<lparr>split_impressions := drop k ?rows\<rparr>)"
      by (simp add: SqlImpressionStorage_pop_many_def pop_in_order[OF Cons.prems])
    have "stamped_in_order im_id im_created_at now (env_clock_reads ?s)
            (split_impressions (env_db ?s))"
      using drop_in_order[OF Cons.prems, of k] by simp
    then have "impression_history self now calls ?s
                 = fifo_history calls (map im_json_data (split_impressions (env_db ?s)))"
      by (rule Cons.IH)
    then show ?thesis using PopMany pop by (simp add: take_map drop_map)
  qed
qed

lemma event_history_fifo:
  assumes mono: "\<forall>i j. i \<le> j \<longrightarrow> now i \<le> now j"
    and inv: "stamped_in_order em_id em_created_at now (env_clock_reads s)
                (split_events (env_db s))"
  shows "event_history self now calls s
           = fifo_history (map payloads calls) (map em_json_data (split_events (env_db s)))"
  using inv
proof (induction calls arbitrary: s)
  case Nil
  then show ?case by simp
next
  case (Cons call calls)
  show ?case
  proof (cases call)
    case (Put xs)
    let ?s = "snd (SqlEventStorage_put self now xs s)"
    let ?m = "DbClient_merge_and_commit em_id event_row now xs
                (split_events (env_db s)) (env_clock_reads s)"
    have "stamped_in_order em_id em_created_at now (snd ?m) (fst ?m)"
      by (rule merge_and_commit_in_order[OF mono _ _ Cons.prems])
         (simp_all add: event_row_def)
    then have "stamped_in_order em_id em_created_at now (env_clock_reads ?s)
                 (split_events (env_db ?s))"
      by (simp add: event_put_state)
    then have "event_history self now calls ?s
                 = fifo_history (map payloads calls) (map em_json_data (split_events (env_db ?s)))"
      by (rule Cons.IH)
    moreover have "map em_json_data (split_events (env_db ?s))
                     = map em_json_data (split_events (env_db s)) @ map ew_event xs"
      using merge_and_commit_payload[of em_json_data event_row ew_event em_id now xs
              "split_events (env_db s)" "env_clock_reads s"]
      by (simp add: event_put_state event_row_def)
    ultimately show ?thesis using Put by simp
  next
    case (PopMany k)
    let ?rows = "split_events (env_db s)"
    let ?s = "s\<lparr>env_db := (env_db s)\<lparr>split_events := drop k ?rows\<rparr>\<rparr>"
    have pop: "SqlEventStorage_pop_many (int k) (env_db s)
                 = (map em_json_data (take k ?rows), (env_db s)\<lparr>split_events := drop k ?rows\<rparr>)"
      by (simp add: SqlEventStorage_pop_many_def pop_in_order[OF Cons.prems])
    have "stamped_in_order em_id em_created_at now (env_clock_reads ?s)
            (split_events (env_db ?s))"
      using drop_in_order[OF Cons.prems, of k] by simp
    then have "event_history self now calls ?s
                 = fifo_history (map payloads calls) (map em_json_data (split_events (env_db ?s)))"
      by (rule Cons.IH)
    then show ?thesis using PopMany pop by (simp add: take_map drop_map)
  qed
qed

text \<open>
  What the ordering by \<open>created_at\<close> does give.  While the clock never steps
  back, every sequential history of \<open>put\<close> and \<open>pop_many(k)\<close> calls on the
  impression store and on the event store, from any table stamped in order (the
  empty one included), returns what the specification's queue returns: each
  \<open>pop_many(k)\<close> gives the \<open>k\<close> oldest items still present, oldest first in
  insertion order, all of them if fewer are present and none if the queue is
  empty, and removes exactly those.
\<close>

theorem pop_many_fifo_while_clock_monotone:
  assumes "mono now"
  shows "(stamped_in_order im_id im_created_at now (env_clock_reads s)
            (split_impressions (env_db s)) \<longrightarrow>
          impression_history self now calls s
            = fifo_history calls (map im_json_data (split_impressions (env_db s))))
       \<and> (stamped_in_order em_id em_created_at now (env_clock_reads s')
            (split_events (env_db s')) \<longrightarrow>
          event_history self' now calls' s'
            = fifo_history (map payloads calls') (map em_json_data (split_events (env_db s'))))"
proof -
  have mono: "\<forall>i j. i \<le> j \<longrightarrow> now i \<le> now j"
    using assms by (simp add: mono_def)
  show ?thesis
    using impression_history_fifo[OF mono] event_history_fifo[OF mono] by blast
qed

theorem pop_many_fifo_example:
  "mono (\<lambda>n. int n)
   \<and> impression_history (SqlImpressionStorage_init 100) (\<lambda>n. int n)
        [Put [''key1''], Put [''key2''], Put [''key3''],
         PopMany 1, PopMany 1, PopMany 1,
         Put [''key4'', ''key5'', ''key6''], PopMany 2, PopMany 5, PopMany 1]
        (fresh_env ())
      = [[''key1''], [''key2''], [''key3''], [''key4'', ''key5''], [''key6''], []]
   \<and> event_history (SqlEventStorage_init 100) (\<lambda>n. int n)
        [Put [\<lparr>ew_event = ''e1'', ew_size = 1024\<rparr>, \<lparr>ew_event = ''e2'', ew_size = 1024\<rparr>],
         PopMany 1, Put [\<lparr>ew_event = ''e3'', ew_size = 1024\<rparr>], PopMany 3, PopMany 1]
        (fresh_env ())
      = [[''e1''], [''e2'', ''e3''], []]"
proof -
  have m: "mono (\<lambda>n. int n)" by (simp add: mono_def)
  show ?thesis
    using m pop_many_fifo_while_clock_monotone[OF m,
        of "fresh_env ()" "SqlImpressionStorage_init 100"
           "[Put [''key1''], Put [''key2''], Put [''key3''],
             PopMany 1, PopMany 1, PopMany 1,
             Put [''key4'', ''key5'', ''key6''], PopMany 2, PopMany 5, PopMany 1]"
           "fresh_env ()" "SqlEventStorage_init 100"
           "[Put [\<lparr>ew_event = ''e1'', ew_size = 1024\<rparr>, \<lparr>ew_event = ''e2'', ew_size = 1024\<rparr>],
             PopMany 1, Put [\<lparr>ew_event = ''e3'', ew_size = 1024\<rparr>], PopMany 3, PopMany 1]"]
    by (simp add: stamped_in_order_def fresh_env_def empty_db_def)
qed

text \<open>
  Claim C1 fails on the code.  The claim, like the store's test (impressions are
  retrieved in the same order they are inserted) and the docstring of \<open>pop_many\<close>
  (pop the oldest N), has every \<open>pop_many(k)\<close> return the \<open>k\<close> oldest items still
  present, in insertion order.  The code orders by the \<open>created_at\<close> stamp, a
  reading of the wall clock, and not by the autoincrement key.  When the clock
  steps back between two inserts (local time at the end of daylight saving, or a
  clock correction), \<open>A\<close> is put first with key 1 and stamp 10, \<open>B\<close> second with key
  2 and stamp 5, and \<open>pop_many(1)\<close> returns \<open>B\<close> and leaves \<open>A\<close>, where insertion
  order asks for \<open>A\<close>.  The event store reads the same column and does the same.
\<close>

theorem C1_clock_steps_back:
  "map (\<lambda>r. (im_id r, im_created_at r, im_json_data r))
     (split_impressions (env_db (snd (SqlImpressionStorage_put (SqlImpressionStorage_init 100)
        (\<lambda>n. if n = 0 then 10 else 5) [''B'']
        (snd (SqlImpressionStorage_put (SqlImpressionStorage_init 100)
           (\<lambda>n. if n = 0 then 10 else 5) [''A''] (fresh_env ())))))))
     = [(1, 10, ''A''), (2, 5, ''B'')]
   \<and> impression_history (SqlImpressionStorage_init 100) (\<lambda>n. if n = 0 then 10 else 5)
       [Put [''A''], Put [''B''], PopMany 1, PopMany 1] (fresh_env ()) = [[''B''], [''A'']]
   \<and> event_history (SqlEventStorage_init 100) (\<lambda>n. if n = 0 then 10 else 5)
       [Put [\<lparr>ew_event = ''A'', ew_size = 8\<rparr>], Put [\<lparr>ew_event = ''B'', ew_size = 8\<rparr>],
        PopMany 1, PopMany 1] (fresh_env ()) = [[''B''], [''A'']]
   \<and> fifo_history [Put [''A''], Put [''B''], PopMany 1, PopMany 1] [] = [[''A''], [''B'']]"
  by (simp add: SqlImpressionStorage_put_def SqlImpressionStorage_init_def
      SqlImpressionStorage_pop_many_def SqlEventStorage_put_def SqlEventStorage_init_def
      SqlEventStorage_pop_many_def DbClient_pop_def DbClient_get_count_def DbClient_get_all_def
      MAX_SIZE_BYTES_def impression_row_def event_row_def fresh_id_def fresh_env_def
      empty_db_def Let_def)

lemma merge_and_commit_length:
  "length (fst (DbClient_merge_and_commit id_of row now xs rows n)) = length rows + length xs"
  by (induction xs arbitrary: rows n) simp_all

lemma merge_and_commit_sizes:
  "sum_list (map em_size (fst (DbClient_merge_and_commit em_id event_row now xs rows n)))
     = sum_list (map em_size rows) + sum_list (map ew_size xs)"
  by (induction xs arbitrary: rows n) (simp_all add: event_row_def)

lemma impression_put_counted:
  "fst (env_world (snd (SqlImpressionStorage_put
          \<lparr>is_queue_size = queue_size, is_table_full_hook = Some (counted hook)\<rparr>
          now impressions (s\<lparr>env_world := (0, w)\<rparr>))))
     = (if int (length (split_impressions (env_db s)) + length impressions) > queue_size
        then 1 else 0)"
proof -
  obtain rows n where m: "DbClient_merge_and_commit im_id impression_row now impressions
                        (split_impressions (env_db s)) (env_clock_reads s) = (rows, n)"
    by (cases "DbClient_merge_and_commit im_id impression_row now impressions
                        (split_impressions (env_db s)) (env_clock_reads s)")
  have len: "length rows = length (split_impressions (env_db s)) + length impressions"
    using merge_and_commit_length[of im_id impression_row now impressions
        "split_impressions (env_db s)" "env_clock_reads s"] m by simp
  show ?thesis
    by (simp add: SqlImpressionStorage_put_def m len DbClient_get_count_def counted_def Let_def
        split: prod.splits sum.splits)
qed

lemma event_put_counted:
  "fst (env_world (snd (SqlEventStorage_put
          \<lparr>es_queue_size = queue_size, es_table_full_hook = Some (counted hook)\<rparr>
          now events (s\<lparr>env_world := (0, w)\<rparr>))))
     = (if int (length (split_events (env_db s)) + length events) > queue_size
           \<or> sum_list (map em_size (split_events (env_db s))) + sum_list (map ew_size events)
                \<ge> 5 * 1024 * 1024
        then 1 else 0)"
proof -
  obtain rows n where m: "DbClient_merge_and_commit em_id event_row now events
                        (split_events (env_db s)) (env_clock_reads s) = (rows, n)"
    by (cases "DbClient_merge_and_commit em_id event_row now events
                        (split_events (env_db s)) (env_clock_reads s)")
  have len: "length rows = length (split_events (env_db s)) + length events"
    using merge_and_commit_length[of em_id event_row now events
        "split_events (env_db s)" "env_clock_reads s"] m by simp
  have sz: "sum_list (map em_size rows)
      = sum_list (map em_size (split_events (env_db s))) + sum_list (map ew_size events)"
    using merge_and_commit_sizes[of now events "split_events (env_db s)" "env_clock_reads s"] m
    by simp
  show ?thesis
    by (simp add: SqlEventStorage_put_def m len sz DbClient_get_count_def DbClient_get_all_def
        counted_def MAX_SIZE_BYTES_def Let_def split: prod.splits sum.splits)
qed

text \<open>
  Claim C2 fails on the code.  A store built with no hook keeps
  \<open>_table_full_hook = None\<close>, and a \<open>put\<close> that takes the table over the threshold
  calls it: the call raises \<open>TypeError\<close> instead of returning true, for the
  impression store and for the event store alike.  An argument that is not
  callable leaves the hook unset, with the same result.
\<close>

theorem C2_put_without_hook_raises:
  "fst (SqlImpressionStorage_put (SqlImpressionStorage_init 1) (\<lambda>n. int n)
          [''i1'', ''i2''] (fresh_env ())) = Inl TypeError
   \<and> fst (SqlEventStorage_put (SqlEventStorage_init 1) (\<lambda>n. int n)
          [\<lparr>ew_event = ''e1'', ew_size = 8\<rparr>, \<lparr>ew_event = ''e2'', ew_size = 8\<rparr>]
          (fresh_env ())) = Inl TypeError
   \<and> fst (SqlImpressionStorage_put
          (SqlImpressionStorage_set_table_full_hook (SqlImpressionStorage_init 1) NotCallable)
          (\<lambda>n. int n) [''i1'', ''i2''] (fresh_env ())) = Inl TypeError
   \<and> map im_json_data (split_impressions (env_db (snd
          (SqlImpressionStorage_put (SqlImpressionStorage_init 1) (\<lambda>n. int n)
             [''i1'', ''i2''] (fresh_env ()))))) = [''i1'', ''i2'']"
  by (simp add: SqlImpressionStorage_put_def SqlImpressionStorage_init_def
      SqlEventStorage_put_def SqlEventStorage_init_def
      SqlImpressionStorage_set_table_full_hook_def DbClient_get_count_def
      DbClient_get_all_def MAX_SIZE_BYTES_def impression_row_def event_row_def
      fresh_env_def empty_db_def Let_def)

text \<open>
  Claim C3.  With a hook registered through \<open>set_table_full_hook\<close>, one \<open>put\<close> on
  the impression store calls the hook exactly once when the row count after the
  insert is above the queue size and not at all otherwise; one \<open>put\<close> on the event
  store calls it exactly once when the row count after the insert is above the
  queue size or the sizes of all stored events add up to at least
  \<open>5 * 1024 * 1024\<close>, and not at all otherwise.  The calls are counted by wrapping
  an arbitrary hook in \<open>counted\<close> and starting the counter at 0.
\<close>

theorem C3_hook_called_once:
  "fst (env_world (snd (SqlImpressionStorage_put
          (SqlImpressionStorage_set_table_full_hook self (Callable (counted hook)))
          now impressions (s\<lparr>env_world := (0, w)\<rparr>))))
     = (if int (length (split_impressions (env_db s)) + length impressions)
             > is_queue_size self
        then 1 else 0)
   \<and> fst (env_world (snd (SqlEventStorage_put
          (SqlEventStorage_set_table_full_hook self' (Callable (counted hook)))
          now events (s\<lparr>env_world := (0, w)\<rparr>))))
     = (if int (length (split_events (env_db s)) + length events) > es_queue_size self'
           \<or> sum_list (map em_size (split_events (env_db s))) + sum_list (map ew_size events)
                \<ge> 5 * 1024 * 1024
        then 1 else 0)"
proof -
  have i: "SqlImpressionStorage_set_table_full_hook self (Callable (counted hook))
             = \<lparr>is_queue_size = is_queue_size self, is_table_full_hook = Some (counted hook)\<rparr>"
    by (cases self) (simp add: SqlImpressionStorage_set_table_full_hook_def)
  have e: "SqlEventStorage_set_table_full_hook self' (Callable (counted hook))
             = \<lparr>es_queue_size = es_queue_size self', es_table_full_hook = Some (counted hook)\<rparr>"
    by (cases self') (simp add: SqlEventStorage_set_table_full_hook_def)
  show ?thesis
    unfolding i e
    using impression_put_counted[where queue_size = "is_queue_size self" and hook = hook]
      event_put_counted[where queue_size = "es_queue_size self'" and hook = hook]
    by simp
qed

theorem C3_hook_called_once_witness:
  "fst (env_world (snd (SqlImpressionStorage_put
          (SqlImpressionStorage_set_table_full_hook (SqlImpressionStorage_init 100)
             (Callable (counted (\<lambda>w. (Inr (), w)))))
          (\<lambda>n. int n) (replicate 101 ''impression'') (fresh_env (0, ()))))) = 1
   \<and> fst (env_world (snd (SqlImpressionStorage_put
          (SqlImpressionStorage_set_table_full_hook (SqlImpressionStorage_init 100)
             (Callable (counted (\<lambda>w. (Inr (), w)))))
          (\<lambda>n. int n) (replicate 100 ''impression'') (fresh_env (0, ()))))) = 0
   \<and> fst (env_world (snd (SqlEventStorage_put
          (SqlEventStorage_set_table_full_hook (SqlEventStorage_init 200)
             (Callable (counted (\<lambda>w. (Inr (), w)))))
          (\<lambda>n. int n) (replicate 160 \<lparr>ew_event = ''event'', ew_size = 32768\<rparr>)
          (fresh_env (0, ()))))) = 1"
  using C3_hook_called_once[where self = "SqlImpressionStorage_init 100"
      and hook = "\<lambda>w. (Inr (), w)" and now = "\<lambda>n. int n"
      and impressions = "replicate 101 ''impression''" and s = "fresh_env (0, ())" and w = "()"
      and self' = "SqlEventStorage_init 200"
      and events = "replicate 160 \<lparr>ew_event = ''event'', ew_size = 32768\<rparr>"]
    C3_hook_called_once[where self = "SqlImpressionStorage_init 100"
      and hook = "\<lambda>w. (Inr (), w)" and now = "\<lambda>n. int n"
      and impressions = "replicate 100 ''impression''" and s = "fresh_env (0, ())" and w = "()"
      and self' = "SqlEventStorage_init 200"
      and events = "[]"]
  by (simp add: fresh_env_def empty_db_def SqlImpressionStorage_init_def
      SqlEventStorage_init_def sum_list_replicate)

subsection \<open>Segment update\<close>

text \<open>
  Claim C6 fails on the code.  \<open>update\<close> appends one key row per element of
  \<open>to_add\<close> without looking at the rows it kept, so adding a key that is already
  a member leaves two rows for it.  The membership is right as a set, but the rows
  are not free of duplicates, and \<open>segment_contains\<close>, which reads the key with
  \<open>one_or_none()\<close>, then raises \<open>MultipleResultsFound\<close> for that key.
\<close>

theorem C6_update_duplicates_member_row:
  "map seg_keys (split_segments (snd (SqlSegmentStorage_update
       (empty_db\<lparr>split_segments := [\<lparr>seg_id = 1, seg_name = ''some_segment'',
                      seg_change_number = Some 123, seg_keys = [''key1'']\<rparr>]\<rparr>)
       ''some_segment'' [''key1''] [] None)))
     = [[''key1'', ''key1'']]
   \<and> SqlSegmentStorage_segment_contains
       (snd (SqlSegmentStorage_update
         (empty_db\<lparr>split_segments := [\<lparr>seg_id = 1, seg_name = ''some_segment'',
                        seg_change_number = Some 123, seg_keys = [''key1'']\<rparr>]\<rparr>)
         ''some_segment'' [''key1''] [] None))
       ''some_segment'' ''key1''
     = Inl MultipleResultsFound
   \<and> SqlSegmentStorage_segment_contains
       (empty_db\<lparr>split_segments := [\<lparr>seg_id = 1, seg_name = ''some_segment'',
                      seg_change_number = Some 123, seg_keys = [''key1'']\<rparr>]\<rparr>)
       ''some_segment'' ''key1''
     = Inr True"
  by (simp add: SqlSegmentStorage_update_def SqlSegmentStorage_segment_contains_def
      DbClient_get_one_or_none_def empty_db_def Let_def)

subsection \<open>Telemetry\<close>

lemma update_other_rows:
  "i \<notin> set (map id_of rows) \<Longrightarrow> map (\<lambda>r. if id_of r = i then f r else r) rows = rows"
  by (induction rows) auto

lemma increment_or_create_absent:
  assumes "filter filters table = []"
    and "\<And>i. id_of (create i) = i"
  shows "DbClient_increment_or_create id_of f filters create table
           = Inr (table @ [f (create (fresh_id (map id_of table)))])"
proof -
  have "fresh_id (map id_of table) \<notin> set (map id_of table)"
    by (rule fresh_id_notin)
  then have "map (\<lambda>r. if id_of r = fresh_id (map id_of table) then f r else r) table = table"
    by (rule update_other_rows)
  then show ?thesis
    using assms
    by (simp add: DbClient_increment_or_create_def DbClient_get_one_or_none_def Let_def)
qed

lemma increment_or_create_present:
  assumes "filter filters base = []"
    and "filters record"
    and "id_of record \<notin> set (map id_of base)"
  shows "DbClient_increment_or_create id_of f filters create (base @ [record])
           = Inr (base @ [f record])"
proof -
  have "map (\<lambda>r. if id_of r = id_of record then f r else r) base = base"
    using assms(3) by (rule update_other_rows)
  then show ?thesis
    using assms
    by (simp add: DbClient_increment_or_create_def DbClient_get_one_or_none_def Let_def)
qed

lemma pop_all:
  "DbClient_pop id_of None (\<lambda>_. True) None table = (table, [])"
  by (simp add: DbClient_pop_def Let_def filter_empty_conv)

lemma inc_counter_present:
  assumes "split_counters d = base @ [\<lparr>cm_id = i, cm_name = name, cm_value = v\<rparr>]"
    and "\<forall>r \<in> set base. cm_name r \<noteq> name"
    and "i \<notin> set (map cm_id base)"
  shows "SqlTelemetryStorage_inc_counter d name
           = (Inr (), d\<lparr>split_counters := base @ [\<lparr>cm_id = i, cm_name = name, cm_value = v + 1\<rparr>]\<rparr>)"
proof -
  have "filter (\<lambda>r. cm_name r = name) base = []"
    using assms(2) by (simp add: filter_empty_conv)
  then have "DbClient_increment_or_create cm_id (\<lambda>r. r\<lparr>cm_value := cm_value r + 1\<rparr>)
               (\<lambda>r. cm_name r = name) (\<lambda>i. \<lparr>cm_id = i, cm_name = name, cm_value = 0\<rparr>)
               (base @ [\<lparr>cm_id = i, cm_name = name, cm_value = v\<rparr>])
             = Inr (base @ [\<lparr>cm_id = i, cm_name = name, cm_value = v\<rparr>\<lparr>cm_value := v + 1\<rparr>])"
    using assms(3)
    by (simp add: increment_or_create_present[where f = "\<lambda>r. r\<lparr>cm_value := cm_value r + 1\<rparr>"])
  then show ?thesis
    by (simp add: SqlTelemetryStorage_inc_counter_def assms(1))
qed

lemma inc_counter_times_present:
  assumes "split_counters d = base @ [\<lparr>cm_id = i, cm_name = name, cm_value = v\<rparr>]"
    and "\<forall>r \<in> set base. cm_name r \<noteq> name"
    and "i \<notin> set (map cm_id base)"
  shows "inc_counter_times n d name
           = (Inr (), d\<lparr>split_counters :=
                          base @ [\<lparr>cm_id = i, cm_name = name, cm_value = v + int n\<rparr>]\<rparr>)"
  using assms(1)
proof (induction n arbitrary: d v)
  case 0
  then show ?case by simp
next
  case (Suc n)
  let ?d = "d\<lparr>split_counters := base @ [\<lparr>cm_id = i, cm_name = name, cm_value = v + 1\<rparr>]\<rparr>"
  have step: "SqlTelemetryStorage_inc_counter d name = (Inr (), ?d)"
    using Suc.prems assms(2,3) by (rule inc_counter_present)
  have "inc_counter_times n ?d name
          = (Inr (), ?d\<lparr>split_counters :=
                          base @ [\<lparr>cm_id = i, cm_name = name, cm_value = v + 1 + int n\<rparr>]\<rparr>)"
    by (rule Suc.IH) simp
  then show ?case using step by (simp add: add.assoc)
qed

lemma inc_counter_absent:
  assumes "\<forall>r \<in> set (split_counters d). cm_name r \<noteq> name"
  shows "SqlTelemetryStorage_inc_counter d name
           = (Inr (), d\<lparr>split_counters := split_counters d @
                 [\<lparr>cm_id = fresh_id (map cm_id (split_counters d)), cm_name = name,
                   cm_value = 1\<rparr>]\<rparr>)"
proof -
  have "filter (\<lambda>r. cm_name r = name) (split_counters d) = []"
    using assms by (simp add: filter_empty_conv)
  then have "DbClient_increment_or_create cm_id (\<lambda>r. r\<lparr>cm_value := cm_value r + 1\<rparr>)
               (\<lambda>r. cm_name r = name) (\<lambda>i. \<lparr>cm_id = i, cm_name = name, cm_value = 0\<rparr>)
               (split_counters d)
             = Inr (split_counters d @
                 [\<lparr>cm_id = fresh_id (map cm_id (split_counters d)), cm_name = name,
                   cm_value = 0\<rparr>\<lparr>cm_value := 0 + 1\<rparr>])"
    by (simp add: increment_or_create_absent[where f = "\<lambda>r. r\<lparr>cm_value := cm_value r + 1\<rparr>"])
  then show ?thesis
    by (simp add: SqlTelemetryStorage_inc_counter_def)
qed

lemma inc_counter_times_absent:
  assumes "\<forall>r \<in> set (split_counters d). cm_name r \<noteq> name"
  shows "inc_counter_times (Suc n) d name
           = (Inr (), d\<lparr>split_counters := split_counters d @
                 [\<lparr>cm_id = fresh_id (map cm_id (split_counters d)), cm_name = name,
                   cm_value = 1 + int n\<rparr>]\<rparr>)"
proof -
  let ?i = "fresh_id (map cm_id (split_counters d))"
  let ?d = "d\<lparr>split_counters := split_counters d @
                 [\<lparr>cm_id = ?i, cm_name = name, cm_value = 1\<rparr>]\<rparr>"
  have first: "SqlTelemetryStorage_inc_counter d name = (Inr (), ?d)"
    using assms by (rule inc_counter_absent)
  have "inc_counter_times n ?d name
          = (Inr (), ?d\<lparr>split_counters := split_counters d @
                 [\<lparr>cm_id = ?i, cm_name = name, cm_value = 1 + int n\<rparr>]\<rparr>)"
  proof (rule inc_counter_times_present)
    show "split_counters ?d = split_counters d @ [\<lparr>cm_id = ?i, cm_name = name, cm_value = 1\<rparr>]"
      by simp
    show "\<forall>r \<in> set (split_counters d). cm_name r \<noteq> name"
      by (rule assms)
    show "?i \<notin> set (map cm_id (split_counters d))"
      by (rule fresh_id_notin)
  qed
  then show ?thesis using first by simp
qed

lemma pop_counters_rows:
  "SqlTelemetryStorage_pop_counters d
     = (fold (\<lambda>counter m. m(cm_name counter \<mapsto> cm_value counter)) (split_counters d) Map.empty,
        d\<lparr>split_counters := []\<rparr>)"
  by (simp add: SqlTelemetryStorage_pop_counters_def pop_all)

text \<open>
  Claim C4, as amended.  From a state with no counter row for \<open>name\<close>, calling
  \<open>inc_counter(name)\<close> \<open>n\<close> times (\<open>n >= 1\<close>) raises nothing, and \<open>pop_counters()\<close>
  then returns the mapping that the counters stored at the start give, with
  \<open>name\<close> bound to \<open>n\<close> in addition: exactly \<open>{name: n}\<close> when the counter table was
  empty at the start.  The rows are removed: the next \<open>pop_counters()\<close> returns the
  empty mapping.
\<close>

theorem C4_inc_counter_then_pop:
  assumes "\<forall>r \<in> set (split_counters d). cm_name r \<noteq> name"
    and "1 \<le> n"
  shows "fst (inc_counter_times n d name) = Inr ()
       \<and> fst (SqlTelemetryStorage_pop_counters (snd (inc_counter_times n d name)))
           = (fst (SqlTelemetryStorage_pop_counters d))(name \<mapsto> int n)
       \<and> (split_counters d = [] \<longrightarrow>
            fst (SqlTelemetryStorage_pop_counters (snd (inc_counter_times n d name)))
              = [name \<mapsto> int n])
       \<and> fst (SqlTelemetryStorage_pop_counters
                 (snd (SqlTelemetryStorage_pop_counters (snd (inc_counter_times n d name)))))
           = Map.empty"
proof -
  obtain m where n: "n = Suc m"
    using assms(2) by (cases n) simp_all
  have run: "inc_counter_times n d name
          = (Inr (), d\<lparr>split_counters := split_counters d @
                 [\<lparr>cm_id = fresh_id (map cm_id (split_counters d)), cm_name = name,
                   cm_value = int n\<rparr>]\<rparr>)"
    using inc_counter_times_absent[OF assms(1), of m] n by simp
  show ?thesis
    by (simp add: run pop_counters_rows)
qed

theorem C4_inc_counter_then_pop_witness:
  "fst (inc_counter_times 3 empty_db ''some_counter_1'') = Inr ()
   \<and> fst (SqlTelemetryStorage_pop_counters (snd (inc_counter_times 3 empty_db ''some_counter_1'')))
       = [''some_counter_1'' \<mapsto> 3]
   \<and> fst (SqlTelemetryStorage_pop_counters
             (snd (SqlTelemetryStorage_pop_counters
                (snd (inc_counter_times 3 empty_db ''some_counter_1'')))))
       = Map.empty"
  using C4_inc_counter_then_pop[of empty_db "''some_counter_1''" 3]
  by (simp add: empty_db_def pop_counters_rows)

text \<open>
  The claim as stated fails when another counter is stored at the start:
  \<open>pop_counters()\<close> drains every counter, so with \<open>b = 7\<close> stored and no row for
  \<open>a\<close>, one \<open>inc_counter(a)\<close> is followed by the mapping \<open>{b: 7, a: 1}\<close>, not
  \<open>{a: 1}\<close>.
\<close>

theorem C4_other_counters_are_popped:
  "filter (\<lambda>r. cm_name r = ''a'')
     (split_counters (empty_db\<lparr>split_counters := [\<lparr>cm_id = 1, cm_name = ''b'', cm_value = 7\<rparr>]\<rparr>))
     = []
   \<and> fst (SqlTelemetryStorage_pop_counters (snd (inc_counter_times 1
        (empty_db\<lparr>split_counters := [\<lparr>cm_id = 1, cm_name = ''b'', cm_value = 7\<rparr>]\<rparr>) ''a'')))
       = [''b'' \<mapsto> 7, ''a'' \<mapsto> 1]
   \<and> [''b'' \<mapsto> 7, ''a'' \<mapsto> 1] \<noteq> [''a'' \<mapsto> (1::int)]"
proof -
  have "[''b'' \<mapsto> 7, ''a'' \<mapsto> 1] ''b'' \<noteq> [''a'' \<mapsto> (1::int)] ''b''"
    by simp
  then have "[''b'' \<mapsto> 7, ''a'' \<mapsto> 1] \<noteq> [''a'' \<mapsto> (1::int)]"
    by metis
  then show ?thesis
    by (simp add: SqlTelemetryStorage_inc_counter_def DbClient_increment_or_create_def
        DbClient_get_one_or_none_def pop_counters_rows fresh_id_def empty_db_def Let_def)
qed














end
